theory Spec2Isabelle
  imports Complex_Main "HOL-Library.Multiset" "HOL-Library.Code_Target_Nat"
begin

section \<open>Python values and errors\<close>

text \<open>
  The functions of \<^verbatim>\<open>utils.py\<close> that carry policy are \<^verbatim>\<open>checkpoint_epoch\<close>,
  \<^verbatim>\<open>list_checkpoints\<close>, \<^verbatim>\<open>delete_old_ckpts\<close> and \<^verbatim>\<open>balanced_dataset\<close>. A Python
  string is a list of Unicode code points, a Python integer is an \<open>int\<close>, and every
  exception the code can raise is a value of \<open>py_error\<close>: \<open>Inl\<close> of it is the raise.
  \<open>py\<close> writes an ASCII literal as a Python string and \<open>ch\<close> one character.
\<close>

type_synonym pystr = "nat list"

definition py :: "string \<Rightarrow> pystr" where
  "py s = map of_char s"

definition ch :: "char \<Rightarrow> nat" where
  "ch c = of_char c"

datatype py_error = IndexError | ValueError | FileNotFoundError pystr

text \<open>
  What the interpreter and numpy bring along and the repository does not hold:
  \<^item> the Unicode tables behind \<^verbatim>\<open>int(s)\<close>: which code points beyond ASCII are white
    space, and which are decimal digits, with their values (both grow with the
    Unicode version);
  \<^item> how \<^verbatim>\<open>np.sort\<close> holds a list of Python integers: \<open>np_store es e\<close> is the value the
    array built from the list \<open>es\<close> holds for \<open>e\<close>, which is also the value \<open>e\<close> is
    compared as by \<^verbatim>\<open>e in array\<close>. It is \<open>e\<close> itself while all of \<open>es\<close> fit the array's
    integer type; a list that mixes values of \<open>2^63\<close> and above with smaller ones
    becomes an array of floats, which rounds.
  They are parameters of the model.
\<close>

record runtime =
  uc_isspace :: "nat \<Rightarrow> bool"
  uc_todecimal :: "nat \<Rightarrow> nat option"
  np_store :: "int list \<Rightarrow> int \<Rightarrow> int"

subsection \<open>String methods\<close>

text \<open>\<^verbatim>\<open>s.split(sep)\<close> for a one-character separator: always at least one piece.\<close>

fun split_chr :: "nat \<Rightarrow> pystr \<Rightarrow> pystr list" where
  "split_chr sep [] = [[]]"
| "split_chr sep (c # cs) =
     (if c = sep then [] # split_chr sep cs
      else (case split_chr sep cs of
              [] \<Rightarrow> [[c]]
            | p # ps \<Rightarrow> (c # p) # ps))"

text \<open>\<^verbatim>\<open>s.startswith(t)\<close> and \<^verbatim>\<open>t in s\<close>.\<close>

fun startswith :: "pystr \<Rightarrow> pystr \<Rightarrow> bool" where
  "startswith s [] = True"
| "startswith [] (t # ts) = False"
| "startswith (c # cs) (t # ts) = (c = t \<and> startswith cs ts)"

fun contains :: "pystr \<Rightarrow> pystr \<Rightarrow> bool" where
  "contains [] t = (t = [])"
| "contains (c # cs) t = (startswith (c # cs) t \<or> contains cs t)"

text \<open>
  \<^verbatim>\<open>s.replace(old, new)\<close>: every occurrence of \<open>old\<close>, left to right and without
  overlap. For the empty \<open>old\<close> Python puts \<open>new\<close> before every character and at the end.
\<close>

function replace_ne :: "pystr \<Rightarrow> pystr \<Rightarrow> pystr \<Rightarrow> pystr" where
  "replace_ne old new [] = []"
| "replace_ne old new (c # cs) =
     (if old \<noteq> [] \<and> startswith (c # cs) old
      then new @ replace_ne old new (drop (length old) (c # cs))
      else c # replace_ne old new cs)"
  by pat_completeness auto
termination
  by (relation "measure (\<lambda>(old, new, s). length s)") auto

definition replace :: "pystr \<Rightarrow> pystr \<Rightarrow> pystr \<Rightarrow> pystr" where
  "replace old new s =
     (if old = [] then new @ concat (map (\<lambda>c. c # new) s) else replace_ne old new s)"

subsection \<open>\<^verbatim>\<open>int(s)\<close> and \<^verbatim>\<open>str(n)\<close>\<close>

text \<open>
  \<^verbatim>\<open>int(s)\<close> in base ten works in two steps. A string with a code point beyond ASCII
  is first rewritten: code points below 127 stay, white space of the Unicode table
  becomes a space, a decimal digit of the table becomes the ASCII digit of its value,
  and at anything else the text ends in a question mark. A string that is all ASCII
  is taken as it is.
\<close>

fun to_ascii :: "runtime \<Rightarrow> pystr \<Rightarrow> pystr" where
  "to_ascii rt [] = []"
| "to_ascii rt (c # cs) =
     (if c < 127 then c # to_ascii rt cs
      else if 127 < c \<and> uc_isspace rt c then ch CHR '' '' # to_ascii rt cs
      else (case (if 127 < c then uc_todecimal rt c else None) of
              None \<Rightarrow> [ch CHR ''?'']
            | Some d \<Rightarrow> if d < 10 then (ch CHR ''0'' + d) # to_ascii rt cs else [ch CHR ''?'']))"

definition transform_decimal_and_space :: "runtime \<Rightarrow> pystr \<Rightarrow> pystr" where
  "transform_decimal_and_space rt s = (if list_all (\<lambda>c. c < 128) s then s else to_ascii rt s)"

text \<open>
  Then the ASCII text is read: white space around the literal is dropped (tab, line
  feed, vertical tab, form feed, carriage return and space, no other), one sign may
  come first, then decimal digits, where single underscores may stand between digits.
  Anything else raises \<^verbatim>\<open>ValueError\<close>. The interpreter's configurable limit on the
  number of digits is not modelled.
\<close>

definition is_space :: "nat \<Rightarrow> bool" where
  "is_space c \<longleftrightarrow> (9 \<le> c \<and> c \<le> 13) \<or> c = 32"

definition is_digit :: "nat \<Rightarrow> bool" where
  "is_digit c \<longleftrightarrow> 48 \<le> c \<and> c \<le> 57"

definition digit_val :: "nat \<Rightarrow> nat" where
  "digit_val c = c - 48"

definition strip :: "pystr \<Rightarrow> pystr" where
  "strip s = rev (dropWhile is_space (rev (dropWhile is_space s)))"

text \<open>
  The digits, with the value read so far and whether the last character was a digit
  (an underscore needs a digit on both sides).
\<close>

fun parse_digits :: "nat \<Rightarrow> bool \<Rightarrow> pystr \<Rightarrow> nat option" where
  "parse_digits acc prev [] = (if prev then Some acc else None)"
| "parse_digits acc prev (c # cs) =
     (if is_digit c then parse_digits (10 * acc + digit_val c) True cs
      else if c = ch CHR ''_'' \<and> prev then parse_digits acc False cs
      else None)"

definition long_from_string :: "pystr \<Rightarrow> py_error + int" where
  "long_from_string s =
     (case strip s of
        [] \<Rightarrow> Inl ValueError
      | c # cs \<Rightarrow>
          if c = ch CHR ''-'' then
            (case parse_digits 0 False cs of None \<Rightarrow> Inl ValueError | Some v \<Rightarrow> Inr (- int v))
          else if c = ch CHR ''+'' then
            (case parse_digits 0 False cs of None \<Rightarrow> Inl ValueError | Some v \<Rightarrow> Inr (int v))
          else
            (case parse_digits 0 False (c # cs) of None \<Rightarrow> Inl ValueError | Some v \<Rightarrow> Inr (int v)))"

definition py_int :: "runtime \<Rightarrow> pystr \<Rightarrow> py_error + int" where
  "py_int rt s = long_from_string (transform_decimal_and_space rt s)"

text \<open>\<^verbatim>\<open>str(n)\<close> of a non-negative integer: its decimal digits, no leading zero.\<close>

definition digit_chr :: "nat \<Rightarrow> nat" where
  "digit_chr d = 48 + d"

function str_nat :: "nat \<Rightarrow> pystr" where
  "str_nat n = (if n < 10 then [digit_chr n] else str_nat (n div 10) @ [digit_chr (n mod 10)])"
  by pat_completeness auto
termination
  by (relation "measure (\<lambda>n. n)") auto

declare str_nat.simps [simp del]

text \<open>The value of a string of decimal digits, read after the value \<open>acc\<close>.\<close>

definition dec_val :: "pystr \<Rightarrow> nat \<Rightarrow> nat" where
  "dec_val ds acc = fold (\<lambda>c a. 10 * a + digit_val c) ds acc"

section \<open>Checkpoint retention\<close>

subsection \<open>\<^verbatim>\<open>checkpoint_epoch\<close>\<close>

text \<open>
  \<^verbatim>\<open>int(checkpoint_name.split('/')[-1].split('.')[-2].split('-')[-1].replace('epoch', ''))\<close>.
  The index \<open>-1\<close> is the last piece, which always exists; the index \<open>-2\<close> raises
  \<^verbatim>\<open>IndexError\<close> when the last path segment has no dot.
\<close>

definition checkpoint_epoch :: "runtime \<Rightarrow> pystr \<Rightarrow> py_error + int" where
  "checkpoint_epoch rt checkpoint_name =
     (let pieces = split_chr (ch CHR ''.'') (last (split_chr (ch CHR ''/'') checkpoint_name))
      in if length pieces < 2 then Inl IndexError
         else py_int rt (replace (py ''epoch'') (py '''')
                (last (split_chr (ch CHR ''-'') (pieces ! (length pieces - 2))))))"

subsection \<open>The file system\<close>

text \<open>
  What the code sees of the file system: what \<^verbatim>\<open>os.listdir\<close> returns for a directory
  (\<open>None\<close> when it cannot be listed), and the set of paths that \<^verbatim>\<open>os.remove\<close> can
  unlink. \<open>delete_old_ckpts\<close> lists the directory once, before the first removal, so
  a removal changes \<open>files\<close> only. A listed name need not be in \<open>files\<close>: the file
  may be gone by the time it is removed. Every failure of \<^verbatim>\<open>os.listdir\<close> and of
  \<^verbatim>\<open>os.remove\<close> is a \<^verbatim>\<open>FileNotFoundError\<close> here; which \<^verbatim>\<open>OSError\<close> is raised makes
  no difference to the code, which catches none. Two paths are the same file iff they
  are the same string. A function with an effect returns its result or error together
  with the file system it leaves behind.
\<close>

record filesystem =
  listdir :: "pystr \<Rightarrow> pystr list option"
  files :: "pystr set"

definition os_listdir :: "filesystem \<Rightarrow> pystr \<Rightarrow> py_error + pystr list" where
  "os_listdir fs path =
     (case listdir fs path of
        None \<Rightarrow> Inl (FileNotFoundError path)
      | Some names \<Rightarrow> Inr names)"

definition os_remove :: "pystr \<Rightarrow> filesystem \<Rightarrow> (py_error + unit) \<times> filesystem" where
  "os_remove path fs =
     (if path \<in> files fs then (Inr (), fs\<lparr>files := files fs - {path}\<rparr>)
      else (Inl (FileNotFoundError path), fs))"

text \<open>\<^verbatim>\<open>os.path.join(a, b)\<close> of \<^verbatim>\<open>posixpath\<close>.\<close>

definition os_path_join :: "pystr \<Rightarrow> pystr \<Rightarrow> pystr" where
  "os_path_join a b =
     (if startswith b (py ''/'') then b
      else if a = [] \<or> last a = ch CHR ''/'' then a @ b
      else a @ py ''/'' @ b)"

subsection \<open>\<^verbatim>\<open>list_checkpoints\<close>\<close>

definition list_checkpoints :: "filesystem \<Rightarrow> pystr \<Rightarrow> pystr \<Rightarrow> py_error + pystr list" where
  "list_checkpoints fs save_path model_name =
     (case os_listdir fs save_path of
        Inl e \<Rightarrow> Inl e
      | Inr names \<Rightarrow>
          Inr (map (os_path_join save_path)
                 (filter (\<lambda>i. contains i (py ''.pt'') \<and> \<not> contains i (py ''opt-'')
                              \<and> contains i model_name)
                    names)))"

subsection \<open>\<^verbatim>\<open>delete_old_ckpts\<close>\<close>

text \<open>\<^verbatim>\<open>saved_epochs = [checkpoint_epoch(checkpoint) for checkpoint in checkpoints]\<close>\<close>

fun epochs_of :: "runtime \<Rightarrow> pystr list \<Rightarrow> py_error + int list" where
  "epochs_of rt [] = Inr []"
| "epochs_of rt (checkpoint # rest) =
     (case checkpoint_epoch rt checkpoint of
        Inl e \<Rightarrow> Inl e
      | Inr n \<Rightarrow> (case epochs_of rt rest of Inl e \<Rightarrow> Inl e | Inr ns \<Rightarrow> Inr (n # ns)))"

text \<open>
  The slice \<^verbatim>\<open>xs[:j]\<close>: a negative \<open>j\<close> counts from the end, and both ends are clamped.
\<close>

definition slice_to :: "int \<Rightarrow> 'a list \<Rightarrow> 'a list" where
  "slice_to j xs = (if j < 0 then take (nat (int (length xs) + j)) xs else take (nat j) xs)"

text \<open>
  \<^verbatim>\<open>np.sort(saved_epochs)[:-num_save]\<close>: the array of the epochs as numpy holds
  them, sorted, without its last \<open>num_save\<close> entries.
\<close>

definition stale_epochs :: "runtime \<Rightarrow> int \<Rightarrow> int list \<Rightarrow> int list" where
  "stale_epochs rt num_save saved_epochs =
     slice_to (- num_save) (sort (map (np_store rt saved_epochs) saved_epochs))"

text \<open>
  \<^verbatim>\<open>checkpoint_epoch(checkpoint) in np.sort(saved_epochs)[:-num_save]\<close>, the condition of
  both comprehensions: the epoch is compared as numpy holds it.
\<close>

definition in_stale :: "runtime \<Rightarrow> int \<Rightarrow> int list \<Rightarrow> int \<Rightarrow> bool" where
  "in_stale rt num_save saved_epochs n \<longleftrightarrow>
     np_store rt saved_epochs n \<in> set (stale_epochs rt num_save saved_epochs)"

text \<open>
  The two comprehensions of \<open>delete_old_ckpts\<close> have one shape:
  \<^verbatim>\<open>[os.remove(target(checkpoint)) for checkpoint in checkpoints
    if checkpoint_epoch(checkpoint) in np.sort(saved_epochs)[:-num_save]]\<close>,
  the first with the checkpoint itself as target, the second with its optimizer file.
  Nothing catches an exception: the first one ends the call.
\<close>

fun remove_where ::
  "runtime \<Rightarrow> (pystr \<Rightarrow> pystr) \<Rightarrow> int \<Rightarrow> int list \<Rightarrow> pystr list \<Rightarrow> filesystem
     \<Rightarrow> (py_error + unit) \<times> filesystem"
where
  "remove_where rt target num_save saved_epochs [] fs = (Inr (), fs)"
| "remove_where rt target num_save saved_epochs (checkpoint # rest) fs =
     (case checkpoint_epoch rt checkpoint of
        Inl e \<Rightarrow> (Inl e, fs)
      | Inr n \<Rightarrow>
          if in_stale rt num_save saved_epochs n then
            (case os_remove (target checkpoint) fs of
               (Inl e, fs') \<Rightarrow> (Inl e, fs')
             | (Inr u, fs') \<Rightarrow> remove_where rt target num_save saved_epochs rest fs')
          else remove_where rt target num_save saved_epochs rest fs)"

text \<open>\<^verbatim>\<open>checkpoint.replace('checkpoint-', 'opt-checkpoint_').replace('.pt', '.tar')\<close>\<close>

definition opt_checkpoint :: "pystr \<Rightarrow> pystr" where
  "opt_checkpoint checkpoint =
     replace (py ''.pt'') (py ''.tar'')
       (replace (py ''checkpoint-'') (py ''opt-checkpoint_'') checkpoint)"

definition delete_old_ckpts ::
  "runtime \<Rightarrow> pystr \<Rightarrow> pystr \<Rightarrow> int \<Rightarrow> filesystem \<Rightarrow> (py_error + unit) \<times> filesystem"
where
  "delete_old_ckpts rt save_path model_name num_save fs =
     (case list_checkpoints fs save_path model_name of
        Inl e \<Rightarrow> (Inl e, fs)
      | Inr checkpoints \<Rightarrow>
          (case epochs_of rt checkpoints of
             Inl e \<Rightarrow> (Inl e, fs)
           | Inr saved_epochs \<Rightarrow>
               (case remove_where rt (\<lambda>c. c) num_save saved_epochs checkpoints fs of
                  (Inl e, fs') \<Rightarrow> (Inl e, fs')
                | (Inr u, fs') \<Rightarrow>
                    remove_where rt opt_checkpoint num_save saved_epochs checkpoints fs')))"

text \<open>
  Whether a checkpoint is one the comprehensions remove: its epoch parses and passes
  the condition.
\<close>

definition is_stale :: "runtime \<Rightarrow> int \<Rightarrow> int list \<Rightarrow> pystr \<Rightarrow> bool" where
  "is_stale rt num_save saved_epochs checkpoint =
     (case checkpoint_epoch rt checkpoint of
        Inl e \<Rightarrow> False
      | Inr n \<Rightarrow> in_stale rt num_save saved_epochs n)"

text \<open>
  The retention rule in the specification's words, for comparison with \<open>stale_epochs\<close>:
  sort the distinct epoch values ascending; all but the \<open>keep\<close> largest go.
\<close>

definition spec_stale_epochs :: "int \<Rightarrow> int list \<Rightarrow> int list" where
  "spec_stale_epochs keep saved_epochs =
     (let distinct_epochs = sort (remdups saved_epochs)
      in take (length distinct_epochs - nat keep) distinct_epochs)"

text \<open>
  A runtime to run the definitions on: an excerpt of the Unicode tables (the no-break
  space and the next-line control as white space, the Arabic-Indic digits), and a
  numpy that holds every integer as it is, which numpy does for integers of 64 bits.
\<close>

definition small_runtime :: runtime where
  "small_runtime =
     \<lparr>uc_isspace = (\<lambda>c. c = 133 \<or> c = 160),
      uc_todecimal = (\<lambda>c. if 1632 \<le> c \<and> c \<le> 1641 then Some (c - 1632) else None),
      np_store = (\<lambda>es e. e)\<rparr>"

text \<open>
  Example directories, all named \<open>ckpts\<close>: five checkpoints with their optimizer
  files; the five checkpoints alone; the five with one checkpoint gone after the
  listing; two checkpoints of one epoch.
\<close>

definition ckpt_names :: "pystr list" where
  "ckpt_names =
     map py [''checkpoint-epoch-1.pt'', ''checkpoint-epoch-2.pt'', ''checkpoint-epoch-3.pt'',
       ''checkpoint-epoch-4.pt'', ''checkpoint-epoch-5.pt'']"

definition opt_names :: "pystr list" where
  "opt_names =
     map py [''opt-checkpoint_epoch-1.tar'', ''opt-checkpoint_epoch-2.tar'',
       ''opt-checkpoint_epoch-3.tar'', ''opt-checkpoint_epoch-4.tar'',
       ''opt-checkpoint_epoch-5.tar'']"

definition dir_of :: "pystr list \<Rightarrow> pystr list \<Rightarrow> filesystem" where
  "dir_of names present =
     \<lparr>listdir = (\<lambda>path. if path = py ''ckpts'' then Some names else None),
      files = set (map (os_path_join (py ''ckpts'')) present)\<rparr>"

definition fs_full :: filesystem where
  "fs_full = dir_of (ckpt_names @ opt_names) (ckpt_names @ opt_names)"

definition fs_no_opt :: filesystem where
  "fs_no_opt = dir_of ckpt_names ckpt_names"

definition fs_raced :: filesystem where
  "fs_raced =
     dir_of (ckpt_names @ opt_names)
       (remove1 (py ''checkpoint-epoch-2.pt'') ckpt_names @ opt_names)"

definition fs_same_epoch :: filesystem where
  "fs_same_epoch =
     dir_of (map py [''a-epoch-5.pt'', ''b-epoch-5.pt'', ''a-epoch-5.tar'', ''b-epoch-5.tar''])
       (map py [''a-epoch-5.pt'', ''b-epoch-5.pt'', ''a-epoch-5.tar'', ''b-epoch-5.tar''])"


section \<open>Balanced resampling\<close>

subsection \<open>The random generator\<close>

text \<open>
  \<^verbatim>\<open>np.random\<close> is not part of the repository. Its global generator state is a value of
  a type \<open>'g\<close>, and the three functions \<open>balanced_dataset\<close> calls are the fields of a
  record: each takes the state and returns its result with the next state.
  \<^verbatim>\<open>np.random.seed(s)\<close> forgets the old state. \<^verbatim>\<open>np.random.choice(a, size, replace)\<close>
  raises on an empty population and on \<^verbatim>\<open>replace=False\<close> with \<open>size > len(a)\<close>;
  \<open>balanced_dataset\<close> never calls it so.
\<close>

record 'g np_random =
  np_seed :: "nat \<Rightarrow> 'g"
  np_choice :: "nat list \<Rightarrow> nat \<Rightarrow> bool \<Rightarrow> 'g \<Rightarrow> nat list \<times> 'g"
  np_permutation :: "nat list \<Rightarrow> 'g \<Rightarrow> nat list \<times> 'g"

text \<open>
  What numpy documents of these functions: a sample has the requested size and is
  drawn from the population, a sample without replacement takes no position twice,
  and a permutation rearranges its argument.
\<close>

definition rng_contract :: "'g np_random \<Rightarrow> bool" where
  "rng_contract rng \<longleftrightarrow>
     (\<forall>a n with_replacement g. a \<noteq> [] \<and> (with_replacement \<or> n \<le> length a) \<longrightarrow>
        length (fst (np_choice rng a n with_replacement g)) = n
        \<and> set (fst (np_choice rng a n with_replacement g)) \<subseteq> set a)
     \<and> (\<forall>a n g. distinct a \<and> n \<le> length a \<longrightarrow> distinct (fst (np_choice rng a n False g)))
     \<and> (\<forall>xs g. mset (fst (np_permutation rng xs g)) = mset xs)"

subsection \<open>\<^verbatim>\<open>balanced_dataset\<close>\<close>

text \<open>
  The labels \<open>y\<close> are an array of non-negative integers (\<^verbatim>\<open>np.bincount\<close> accepts no
  others; its result is overwritten by the next line).
  \<^verbatim>\<open>labels, counts = np.unique(y, return_counts=True)\<close>: the distinct labels in
  ascending order, and how often each occurs.
\<close>

definition np_unique :: "nat list \<Rightarrow> nat list" where
  "np_unique y = sort (remdups y)"

definition np_counts :: "nat list \<Rightarrow> int list" where
  "np_counts y = map (\<lambda>label. int (count_list y label)) (np_unique y)"

text \<open>\<^verbatim>\<open>np.min\<close> raises \<^verbatim>\<open>ValueError\<close> on an empty array.\<close>

definition np_min :: "int list \<Rightarrow> py_error + int" where
  "np_min xs = (case xs of [] \<Rightarrow> Inl ValueError | x # rest \<Rightarrow> Inr (fold min rest x))"

text \<open>
  \<^verbatim>\<open>minority = np.min(counts)\<close>, and
  \<^verbatim>\<open>if min_size is not None: minority = max(minority, min_size // len(labels))\<close>.
  Python's \<^verbatim>\<open>//\<close> on integers rounds down, as \<open>div\<close> on \<open>int\<close> does.
\<close>

definition minority_of :: "nat list \<Rightarrow> int option \<Rightarrow> py_error + int" where
  "minority_of y min_size =
     (case np_min (np_counts y) of
        Inl e \<Rightarrow> Inl e
      | Inr minority \<Rightarrow>
          (case min_size of
             None \<Rightarrow> Inr minority
           | Some m \<Rightarrow> Inr (max minority (m div int (length (np_unique y))))))"

text \<open>\<^verbatim>\<open>np.where(y == label)[0]\<close>: the positions of a label, ascending.\<close>

definition np_where :: "nat list \<Rightarrow> nat \<Rightarrow> nat list" where
  "np_where y label = filter (\<lambda>i. y ! i = label) [0..<length y]"

text \<open>The loop over the labels, with the indices drawn so far and the generator.\<close>

fun draw_labels ::
  "'g np_random \<Rightarrow> nat list \<Rightarrow> int \<Rightarrow> nat list \<Rightarrow> nat list \<Rightarrow> 'g \<Rightarrow> nat list \<times> 'g"
where
  "draw_labels rng y minority [] idxs g = (idxs, g)"
| "draw_labels rng y minority (label # labels) idxs g =
     (let label_idxs = np_where y label;
          (drawn, g') =
            (if minority \<le> int (length label_idxs)
             then np_choice rng label_idxs (nat minority) False g
             else np_choice rng label_idxs (nat minority) True g)
      in draw_labels rng y minority labels (idxs @ drawn) g')"

text \<open>
  The index list up to the truncation. \<^verbatim>\<open>if max_size:\<close> is false for \<^verbatim>\<open>None\<close> and
  for \<open>0\<close>. The generator state the caller had is overwritten by the seeding.
\<close>

definition balanced_idxs ::
  "'g np_random \<Rightarrow> nat list \<Rightarrow> int option \<Rightarrow> int option \<Rightarrow> 'g \<Rightarrow> (py_error + nat list) \<times> 'g"
where
  "balanced_idxs rng y max_size min_size g =
     (let g0 = np_seed rng 0 in
      case minority_of y min_size of
        Inl e \<Rightarrow> (Inl e, g0)
      | Inr minority \<Rightarrow>
          (let (idxs, g1) = draw_labels rng y minority (np_unique y) [] g0;
               (idxs, g2) = np_permutation rng idxs g1
           in (Inr (case max_size of
                      None \<Rightarrow> idxs
                    | Some m \<Rightarrow> if m \<noteq> 0 then slice_to m idxs else idxs), g2)))"

text \<open>\<^verbatim>\<open>X[idxs]\<close> for an index array: \<^verbatim>\<open>IndexError\<close> when an index is out of range.\<close>

definition take_idxs :: "'a list \<Rightarrow> nat list \<Rightarrow> py_error + 'a list" where
  "take_idxs xs idxs =
     (if list_all (\<lambda>i. i < length xs) idxs then Inr (map (nth xs) idxs) else Inl IndexError)"

text \<open>\<^verbatim>\<open>return X[idxs], y[idxs]\<close>\<close>

definition select_both :: "'a list \<Rightarrow> nat list \<Rightarrow> nat list \<Rightarrow> py_error + 'a list \<times> nat list" where
  "select_both X y idxs =
     (case take_idxs X idxs of
        Inl e \<Rightarrow> Inl e
      | Inr Xs \<Rightarrow> (case take_idxs y idxs of Inl e \<Rightarrow> Inl e | Inr ys \<Rightarrow> Inr (Xs, ys)))"

definition balanced_dataset ::
  "'g np_random \<Rightarrow> 'a list \<Rightarrow> nat list \<Rightarrow> int option \<Rightarrow> int option \<Rightarrow> 'g
     \<Rightarrow> (py_error + 'a list \<times> nat list) \<times> 'g"
where
  "balanced_dataset rng X y max_size min_size g =
     (case balanced_idxs rng y max_size min_size g of
        (Inl e, g') \<Rightarrow> (Inl e, g')
      | (Inr idxs, g') \<Rightarrow> (select_both X y idxs, g'))"

text \<open>
  A generator to run the definitions on: its state counts the calls, a sample without
  replacement is the front of the population, a sample with replacement walks through
  it cyclically, and a permutation reverses.
\<close>

definition counting_rng :: "nat np_random" where
  "counting_rng =
     \<lparr>np_seed = (\<lambda>s. s),
      np_choice = (\<lambda>a n with_replacement g.
         (if with_replacement then map (\<lambda>i. a ! (i mod length a)) [0..<n] else take n a,
          Suc g)),
      np_permutation = (\<lambda>xs g. (rev xs, Suc g))\<rparr>"

text \<open>Ten samples of class 0 followed by ten of class 1; three of class 0 and ten of class 1.\<close>

definition y_even :: "nat list" where
  "y_even = replicate 10 0 @ replicate 10 1"

definition y_skew :: "nat list" where
  "y_skew = replicate 3 0 @ replicate 10 1"


section \<open>Properties of the string functions\<close>

lemma split_chr_ne: "split_chr sep s \<noteq> []"
  by (induction s) (auto split: list.splits)

lemma split_chr_none: "sep \<notin> set b \<Longrightarrow> split_chr sep b = [b]"
  by (induction b) auto

lemma split_chr_sep: "split_chr sep (a @ sep # b) = split_chr sep a @ split_chr sep b"
  by (induction a) (auto split: list.splits simp: split_chr_ne)

lemma split_chr_append:
  "sep \<notin> set b \<Longrightarrow>
   split_chr sep (a @ b) = butlast (split_chr sep a) @ [last (split_chr sep a) @ b]"
proof (induction a)
  case Nil
  then show ?case by (simp add: split_chr_none)
next
  case (Cons c a)
  obtain p ps where p: "split_chr sep a = p # ps"
    using split_chr_ne [of sep a] by (cases "split_chr sep a") auto
  show ?case
  proof (cases "ps = []")
    case True
    with Cons p show ?thesis by simp
  next
    case False
    with Cons p show ?thesis by simp
  qed
qed

lemma last_split_chr_append:
  "sep \<notin> set b \<Longrightarrow> last (split_chr sep (a @ b)) = last (split_chr sep a) @ b"
  by (simp add: split_chr_append)

lemma length_split_chr_append:
  "sep \<notin> set b \<Longrightarrow> length (split_chr sep (a @ b)) = length (split_chr sep a)"
  by (induction a) (auto split: list.splits simp: split_chr_none)

lemma replace_ne_absent: "old \<noteq> [] \<Longrightarrow> hd old \<notin> set s \<Longrightarrow> replace_ne old new s = s"
  by (induction s) (auto simp: neq_Nil_conv)

lemma is_digit_digit_chr: "d < 10 \<Longrightarrow> is_digit (digit_chr d)"
  by (simp add: is_digit_def digit_chr_def)

lemma digit_val_digit_chr: "d < 10 \<Longrightarrow> digit_val (digit_chr d) = d"
  by (simp add: digit_val_def digit_chr_def)

lemma str_nat_digits: "c \<in> set (str_nat n) \<Longrightarrow> is_digit c"
proof (induction n rule: str_nat.induct)
  case (1 n)
  show ?case
  proof (cases "n < 10")
    case True
    with "1.prems" show ?thesis
      by (subst (asm) str_nat.simps) (simp add: is_digit_digit_chr)
  next
    case False
    with "1.prems" "1.IH" show ?thesis
      by (subst (asm) str_nat.simps) (auto simp: is_digit_digit_chr)
  qed
qed

lemma str_nat_ne: "str_nat n \<noteq> []"
  by (subst str_nat.simps) simp

lemma parse_digits_all:
  "\<forall>c \<in> set ds. is_digit c \<Longrightarrow>
   parse_digits acc prev (ds @ rest) = parse_digits (dec_val ds acc) (prev \<or> ds \<noteq> []) rest"
  by (induction ds arbitrary: acc prev) (auto simp: dec_val_def)

lemma dec_val_str_nat: "dec_val (str_nat n) 0 = n"
proof (induction n rule: str_nat.induct)
  case (1 n)
  show ?case
  proof (cases "n < 10")
    case True
    then show ?thesis
      by (subst str_nat.simps) (simp add: dec_val_def digit_val_digit_chr)
  next
    case False
    with "1.IH" show ?thesis
      by (subst str_nat.simps) (simp add: dec_val_def digit_val_digit_chr)
  qed
qed

lemma parse_digits_str_nat: "parse_digits 0 False (str_nat n) = Some n"
  using parse_digits_all [of "str_nat n" 0 False "[]"] str_nat_digits [of _ n]
  by (simp add: dec_val_str_nat str_nat_ne)

lemma is_digit_not_space: "is_digit c \<Longrightarrow> \<not> is_space c"
  by (auto simp: is_digit_def is_space_def)

lemma dropWhile_hd: "xs \<noteq> [] \<Longrightarrow> \<not> P (hd xs) \<Longrightarrow> dropWhile P xs = xs"
  by (cases xs) auto

lemma strip_digits:
  assumes "ds \<noteq> []" "\<forall>c \<in> set ds. is_digit c"
  shows "strip ds = ds"
proof -
  from assms have "\<not> is_space (hd ds)" "\<not> is_space (hd (rev ds))"
    by (auto simp: is_digit_not_space hd_rev)
  with assms(1) show ?thesis
    by (simp add: strip_def dropWhile_hd)
qed

lemma long_from_string_str_nat: "long_from_string (str_nat n) = Inr (int n)"
proof -
  let ?ds = "str_nat n"
  have d: "\<forall>c \<in> set ?ds. is_digit c" using str_nat_digits by blast
  have s: "strip ?ds = ?ds" using strip_digits [OF str_nat_ne] d by blast
  obtain c cs where c: "?ds = c # cs" using str_nat_ne [of n] by (cases ?ds) auto
  with d have "is_digit c" by simp
  then have "c \<noteq> ch CHR ''-''" "c \<noteq> ch CHR ''+''" by (auto simp: is_digit_def ch_def)
  with c s parse_digits_str_nat [of n] show ?thesis
    by (simp add: long_from_string_def)
qed

lemma py_int_str_nat: "py_int rt (str_nat n) = Inr (int n)"
proof -
  have "c < 128" if "c \<in> set (str_nat n)" for c
    using str_nat_digits [OF that] by (simp add: is_digit_def)
  then have "list_all (\<lambda>c. c < 128) (str_nat n)"
    by (simp add: list_all_iff)
  then show ?thesis
    by (simp add: py_int_def transform_decimal_and_space_def long_from_string_str_nat)
qed

lemma digit_not_delim:
  "is_digit c \<Longrightarrow>
     c \<noteq> ch CHR ''/'' \<and> c \<noteq> ch CHR ''.'' \<and> c \<noteq> ch CHR ''-'' \<and> c \<noteq> ch CHR ''e''"
  by (auto simp: is_digit_def ch_def)

text \<open>
  Three readings of \<^verbatim>\<open>int\<close>, for any Unicode tables: the control character 28 is not
  white space to it, the no-break space is where the table says so, and a digit of
  the table counts with its value.
\<close>

lemma int_control_char_not_space: "py_int rt (28 # py ''5'') = Inl ValueError"
  by (simp add: py_int_def transform_decimal_and_space_def long_from_string_def strip_def
      is_space_def is_digit_def py_def ch_def)

lemma int_unicode_space:
  assumes "uc_isspace rt 160"
  shows "py_int rt (160 # py ''12'') = Inr 12"
  using assms
  by (simp add: py_int_def transform_decimal_and_space_def long_from_string_def strip_def
      is_space_def is_digit_def digit_val_def py_def ch_def)

lemma int_unicode_digit:
  assumes "\<not> uc_isspace rt 1633" "uc_todecimal rt 1633 = Some 1"
  shows "py_int rt [1633, 1633] = Inr 11"
  using assms
  by (simp add: py_int_def transform_decimal_and_space_def long_from_string_def strip_def
      is_space_def is_digit_def digit_val_def py_def ch_def)

text \<open>The same for the epoch of a checkpoint name.\<close>

lemma epoch_control_char:
  "checkpoint_epoch rt (py ''ckpts/m-epoch-'' @ 28 # py ''5.pt'') = Inl ValueError"
  by (simp add: checkpoint_epoch_def py_int_def transform_decimal_and_space_def
      long_from_string_def strip_def replace_def is_space_def is_digit_def py_def ch_def Let_def)

lemma epoch_unicode_space:
  assumes "uc_isspace rt 160"
  shows "checkpoint_epoch rt (py ''ckpts/m-epoch-'' @ 160 # py ''12.pt'') = Inr 12"
  using assms
  by (simp add: checkpoint_epoch_def py_int_def transform_decimal_and_space_def
      long_from_string_def strip_def replace_def is_space_def is_digit_def digit_val_def
      py_def ch_def Let_def)

section \<open>Epoch parsing\<close>

text \<open>
  Claim C8. For a name \<open>{prefix}-epoch-{N}.{ext}\<close>, where \<open>N\<close> is a non-negative
  integer written by \<^verbatim>\<open>str\<close>, and the extension \<open>ext\<close> holds no dot and, being part
  of a file name, no path separator, \<open>checkpoint_epoch\<close> returns \<open>N\<close>. The prefix
  may be any string: dashes, dots and directories in it do not matter. Prefix and
  extension are strings of any code points, and the Unicode tables are any.
\<close>

theorem checkpoint_epoch_roundtrip:
  assumes dot: "ch CHR ''.'' \<notin> set ext" and slash: "ch CHR ''/'' \<notin> set ext"
  shows "checkpoint_epoch rt (pre @ py ''-epoch-'' @ str_nat n @ py ''.'' @ ext) = Inr (int n)"
proof -
  let ?ds = "str_nat n"
  let ?dot = "ch CHR ''.''" and ?slash = "ch CHR ''/''" and ?dash = "ch CHR ''-''"
  have nd: "?slash \<notin> set ?ds" "?dot \<notin> set ?ds" "?dash \<notin> set ?ds" "ch CHR ''e'' \<notin> set ?ds"
    using str_nat_digits digit_not_delim by blast+
  define stem where "stem = py ''-epoch''"
  have stem: "?slash \<notin> set stem" "?dot \<notin> set stem"
    by (simp_all add: stem_def py_def ch_def)
  have lits: "py ''-epoch-'' = stem @ [?dash]" "py ''.'' = [?dot]"
    by (simp_all add: stem_def py_def ch_def)
  define p1 where "p1 = last (split_chr ?slash pre)"
  define p2 where "p2 = last (split_chr ?dot p1)"
  have name: "pre @ py ''-epoch-'' @ ?ds @ py ''.'' @ ext = pre @ (stem @ ?dash # ?ds @ ?dot # ext)"
    by (simp add: lits)
  have "?slash \<noteq> ?dash" "?slash \<noteq> ?dot" "?dot \<noteq> ?dash" by (simp_all add: ch_def)
  then have free: "?slash \<notin> set (stem @ ?dash # ?ds @ ?dot # ext)" "?dot \<notin> set (stem @ ?dash # ?ds)"
    using nd stem slash by auto
  have seg: "last (split_chr ?slash (pre @ (stem @ ?dash # ?ds @ ?dot # ext)))
      = (p1 @ stem @ ?dash # ?ds) @ ?dot # ext"
    using last_split_chr_append [OF free(1), of pre] by (simp add: p1_def)
  let ?ps = "split_chr ?dot (p1 @ stem @ ?dash # ?ds)"
  have pieces: "split_chr ?dot ((p1 @ stem @ ?dash # ?ds) @ ?dot # ext) = ?ps @ [ext]"
    using split_chr_sep [of ?dot "p1 @ stem @ ?dash # ?ds" ext] split_chr_none [OF dot]
    by (simp only:)
  have last_ps: "last ?ps = (p2 @ stem) @ ?dash # ?ds"
    using last_split_chr_append [OF free(2), of p1] by (simp add: p2_def)
  have num: "last (split_chr ?dash ((p2 @ stem) @ ?dash # ?ds)) = ?ds"
    using split_chr_sep [of ?dash "p2 @ stem" ?ds] split_chr_none [OF nd(3)]
    by simp
  have "hd (py ''epoch'') = ch CHR ''e''" "py ''epoch'' \<noteq> []"
    by (simp_all add: py_def ch_def)
  then have rep: "replace (py ''epoch'') (py '''') ?ds = ?ds"
    using nd(4) by (simp add: replace_def replace_ne_absent)
  have ne: "?ps \<noteq> []" by (rule split_chr_ne)
  then have len: "\<not> length (?ps @ [ext]) < 2"
    by (cases ?ps) auto
  have pen: "(?ps @ [ext]) ! (length (?ps @ [ext]) - 2) = last ?ps"
    using ne by (simp add: nth_append last_conv_nth)
  show ?thesis
    unfolding checkpoint_epoch_def Let_def name seg pieces
    using len pen last_ps num rep py_int_str_nat [of rt n] by simp
qed

theorem checkpoint_epoch_roundtrip_witness:
  "ch CHR ''.'' \<notin> set (py ''pt'') \<and> ch CHR ''/'' \<notin> set (py ''pt'')
   \<and> py ''runs/model'' @ py ''-epoch-'' @ str_nat 12 @ py ''.'' @ py ''pt''
      = py ''runs/model-epoch-12.pt''
   \<and> checkpoint_epoch small_runtime (py ''runs/model-epoch-12.pt'') = Inr 12"
proof -
  have a: "ch CHR ''.'' \<notin> set (py ''pt'')" "ch CHR ''/'' \<notin> set (py ''pt'')"
    by code_simp+
  have e: "py ''runs/model'' @ py ''-epoch-'' @ str_nat 12 @ py ''.'' @ py ''pt''
      = py ''runs/model-epoch-12.pt''"
    by code_simp
  from checkpoint_epoch_roundtrip [OF a, of small_runtime "py ''runs/model''" 12]
  have "checkpoint_epoch small_runtime (py ''runs/model-epoch-12.pt'') = Inr (int 12)"
    unfolding e .
  with a e show ?thesis by simp
qed


section \<open>Properties of the removal loop\<close>

lemma epochs_of_Inr:
  "epochs_of rt cps = Inr ns \<Longrightarrow> map (checkpoint_epoch rt) cps = map Inr ns"
  by (induction cps arbitrary: ns) (auto split: sum.splits)

lemma epochs_of_parses:
  "epochs_of rt cps = Inr ns \<Longrightarrow> c \<in> set cps \<Longrightarrow> \<exists>n. checkpoint_epoch rt c = Inr n"
  by (induction cps arbitrary: ns) (auto split: sum.splits)

lemma epochs_of_Inl:
  "c \<in> set cps \<Longrightarrow> checkpoint_epoch rt c = Inl e \<Longrightarrow> \<exists>e'. epochs_of rt cps = Inl e'"
  by (induction cps) (auto split: sum.splits)

lemma epochs_of_error_kind:
  "epochs_of rt cps = Inl e \<Longrightarrow> \<exists>c \<in> set cps. checkpoint_epoch rt c = Inl e"
  by (induction cps) (auto split: sum.splits)

lemma remove_where_shrinks:
  "remove_where rt target num_save es cps fs = (r, fs') \<Longrightarrow>
   files fs' \<subseteq> files fs \<and> listdir fs' = listdir fs"
proof (induction cps arbitrary: fs)
  case Nil
  then show ?case by simp
next
  case (Cons c cps)
  show ?case
  proof (cases "checkpoint_epoch rt c")
    case (Inl e)
    with Cons.prems show ?thesis by simp
  next
    case (Inr n)
    show ?thesis
    proof (cases "in_stale rt num_save es n \<and> target c \<in> files fs")
      case True
      with Cons.prems Inr
      have "remove_where rt target num_save es cps (fs\<lparr>files := files fs - {target c}\<rparr>) = (r, fs')"
        by (simp add: os_remove_def)
      from Cons.IH [OF this] show ?thesis by auto
    next
      case False
      with Cons.prems Inr Cons.IH [of fs] show ?thesis
        by (auto simp: os_remove_def split: if_splits)
    qed
  qed
qed

lemma remove_where_ok:
  assumes "\<forall>c \<in> set cps. \<exists>n. checkpoint_epoch rt c = Inr n"
    and "distinct (map target (filter (is_stale rt num_save es) cps))"
    and "target ` {c \<in> set cps. is_stale rt num_save es c} \<subseteq> files fs"
  shows "remove_where rt target num_save es cps fs =
    (Inr (), fs\<lparr>files := files fs - target ` {c \<in> set cps. is_stale rt num_save es c}\<rparr>)"
  using assms
proof (induction cps arbitrary: fs)
  case Nil
  then show ?case by simp
next
  case (Cons c cps)
  from Cons.prems(1) obtain n where n: "checkpoint_epoch rt c = Inr n" by auto
  show ?case
  proof (cases "in_stale rt num_save es n")
    case True
    then have st: "is_stale rt num_save es c" by (simp add: is_stale_def n)
    let ?fs = "fs\<lparr>files := files fs - {target c}\<rparr>"
    from Cons.prems(3) st have here: "target c \<in> files fs" by auto
    from Cons.prems(2) st have fresh: "target c \<notin> target ` {c \<in> set cps. is_stale rt num_save es c}"
      by auto
    have "remove_where rt target num_save es cps ?fs =
      (Inr (), ?fs\<lparr>files := files ?fs - target ` {c \<in> set cps. is_stale rt num_save es c}\<rparr>)"
    proof (rule Cons.IH)
      show "\<forall>c \<in> set cps. \<exists>n. checkpoint_epoch rt c = Inr n" using Cons.prems(1) by simp
      show "distinct (map target (filter (is_stale rt num_save es) cps))"
        using Cons.prems(2) by (simp split: if_splits)
      have "target ` {c \<in> set cps. is_stale rt num_save es c} \<subseteq> files fs"
        using Cons.prems(3) by auto
      with fresh show "target ` {c \<in> set cps. is_stale rt num_save es c} \<subseteq> files ?fs"
        by (simp add: subset_Diff_insert)
    qed
    moreover have "files fs - {target c} - target ` {c \<in> set cps. is_stale rt num_save es c}
        = files fs - target ` {c' \<in> set (c # cps). is_stale rt num_save es c'}"
      using st by auto
    ultimately show ?thesis using n True here by (simp add: os_remove_def)
  next
    case False
    then have st: "\<not> is_stale rt num_save es c" by (simp add: is_stale_def n)
    have "remove_where rt target num_save es cps fs =
      (Inr (), fs\<lparr>files := files fs - target ` {c \<in> set cps. is_stale rt num_save es c}\<rparr>)"
    proof (rule Cons.IH)
      show "\<forall>c \<in> set cps. \<exists>n. checkpoint_epoch rt c = Inr n" using Cons.prems(1) by simp
      show "distinct (map target (filter (is_stale rt num_save es) cps))"
        using Cons.prems(2) st by simp
      show "target ` {c \<in> set cps. is_stale rt num_save es c} \<subseteq> files fs"
        using Cons.prems(3) by auto
    qed
    moreover have "{c' \<in> set (c # cps). is_stale rt num_save es c'} = {c \<in> set cps. is_stale rt num_save es c}"
      using st by auto
    ultimately show ?thesis using n False by simp
  qed
qed

lemma remove_where_append:
  "remove_where rt target num_save es (pre @ post) fs =
     (case remove_where rt target num_save es pre fs of
        (Inl e, fs') \<Rightarrow> (Inl e, fs')
      | (Inr u, fs') \<Rightarrow> remove_where rt target num_save es post fs')"
  by (induction pre arbitrary: fs) (auto simp: os_remove_def split: sum.splits prod.splits)

lemma remove_where_missing:
  assumes "\<forall>c \<in> set cps. \<exists>n. checkpoint_epoch rt c = Inr n"
    and "c \<in> set cps" and "is_stale rt num_save es c" and "target c \<notin> files fs"
  shows "\<exists>p fs'. remove_where rt target num_save es cps fs = (Inl (FileNotFoundError p), fs')"
  using assms
proof (induction cps arbitrary: fs)
  case Nil
  then show ?case by simp
next
  case (Cons d cps)
  from Cons.prems(1) obtain n where n: "checkpoint_epoch rt d = Inr n" by auto
  show ?case
  proof (cases "in_stale rt num_save es n")
    case True
    show ?thesis
    proof (cases "target d \<in> files fs")
      case here: True
      with Cons.prems(4) have "d \<noteq> c" by auto
      with Cons.prems(2) have "c \<in> set cps" by simp
      moreover have "target c \<notin> files (fs\<lparr>files := files fs - {target d}\<rparr>)"
        using Cons.prems(4) by simp
      ultimately have "\<exists>p fs'. remove_where rt target num_save es cps (fs\<lparr>files := files fs - {target d}\<rparr>)
          = (Inl (FileNotFoundError p), fs')"
        using Cons.IH Cons.prems(1,3) by simp
      with n True here show ?thesis by (simp add: os_remove_def)
    next
      case False
      with n True show ?thesis by (simp add: os_remove_def)
    qed
  next
    case False
    with Cons.prems(3) n have "d \<noteq> c" by (auto simp: is_stale_def)
    with Cons.prems(2) have "c \<in> set cps" by simp
    with Cons.IH [of fs] Cons.prems(1,3,4) n False show ?thesis by simp
  qed
qed

text \<open>
  Where numpy rounds, the condition follows it: of the epochs \<open>1\<close>, \<open>2^63\<close> and
  \<open>2^63 + 1\<close>, held in an array of floats in which the last two are equal, all three
  pass the condition for \<open>num_save = 1\<close>.
\<close>

lemma rounded_epochs_all_stale:
  assumes "es = [1, 2 ^ 63, 2 ^ 63 + 1]"
    and "np_store rt es 1 = 1" and "np_store rt es (2 ^ 63) = 2 ^ 63"
    and "np_store rt es (2 ^ 63 + 1) = 2 ^ 63"
  shows "in_stale rt 1 es 1 \<and> in_stale rt 1 es (2 ^ 63) \<and> in_stale rt 1 es (2 ^ 63 + 1)"
proof -
  have "map (np_store rt es) es = [1, 2 ^ 63, 2 ^ 63]"
    using assms(2-4) by (simp add: assms(1) [symmetric]) (simp add: assms(1))
  then have "stale_epochs rt 1 es = [1, 2 ^ 63]"
    by (simp add: stale_epochs_def slice_to_def assms(1))
  with assms(2-4) show ?thesis by (simp add: in_stale_def)
qed


section \<open>Pruning old checkpoints\<close>

text \<open>
  Claim C9. If the epoch of any listed checkpoint does not parse, \<open>delete_old_ckpts\<close>
  raises the parse error (\<^verbatim>\<open>IndexError\<close> or \<^verbatim>\<open>ValueError\<close>) while it computes
  \<open>saved_epochs\<close>, before the first removal: the file system it leaves is the one it
  was given.
\<close>

theorem parse_error_aborts_unchanged:
  assumes "list_checkpoints fs save_path model_name = Inr checkpoints"
    and "c \<in> set checkpoints" and "checkpoint_epoch rt c = Inl e"
  shows "\<exists>e'. delete_old_ckpts rt save_path model_name num_save fs = (Inl e', fs)
           \<and> (e' = IndexError \<or> e' = ValueError)"
proof -
  from epochs_of_Inl [OF assms(2,3)] obtain e' where e': "epochs_of rt checkpoints = Inl e'"
    by auto
  from epochs_of_error_kind [OF e'] obtain d where "checkpoint_epoch rt d = Inl e'" by auto
  then have "e' = IndexError \<or> e' = ValueError"
    by (auto simp: checkpoint_epoch_def py_int_def long_from_string_def Let_def
        split: if_splits list.splits option.splits)
  with e' assms(1) show ?thesis by (simp add: delete_old_ckpts_def)
qed

text \<open>
  The witness lists a name whose number starts with the control character 28, which
  \<^verbatim>\<open>int\<close> does not take for white space.
\<close>

theorem parse_error_aborts_unchanged_witness:
  "list_checkpoints (dir_of (ckpt_names @ [py ''m-epoch-'' @ [28] @ py ''5.pt'']) ckpt_names)
       (py ''ckpts'') (py '''')
     = Inr (map (os_path_join (py ''ckpts'')) (ckpt_names @ [py ''m-epoch-'' @ [28] @ py ''5.pt'']))
   \<and> py ''ckpts/m-epoch-'' @ [28] @ py ''5.pt''
       \<in> set (map (os_path_join (py ''ckpts'')) (ckpt_names @ [py ''m-epoch-'' @ [28] @ py ''5.pt'']))
   \<and> checkpoint_epoch small_runtime (py ''ckpts/m-epoch-'' @ [28] @ py ''5.pt'') = Inl ValueError
   \<and> (\<exists>e'. delete_old_ckpts small_runtime (py ''ckpts'') (py '''') 3
              (dir_of (ckpt_names @ [py ''m-epoch-'' @ [28] @ py ''5.pt'']) ckpt_names)
          = (Inl e', dir_of (ckpt_names @ [py ''m-epoch-'' @ [28] @ py ''5.pt'']) ckpt_names)
        \<and> (e' = IndexError \<or> e' = ValueError))"
proof -
  let ?fs = "dir_of (ckpt_names @ [py ''m-epoch-'' @ [28] @ py ''5.pt'']) ckpt_names"
  have a: "list_checkpoints ?fs (py ''ckpts'') (py '''')
     = Inr (map (os_path_join (py ''ckpts'')) (ckpt_names @ [py ''m-epoch-'' @ [28] @ py ''5.pt'']))"
    by code_simp
  have b: "py ''ckpts/m-epoch-'' @ [28] @ py ''5.pt''
       \<in> set (map (os_path_join (py ''ckpts'')) (ckpt_names @ [py ''m-epoch-'' @ [28] @ py ''5.pt'']))"
    by code_simp
  have c: "checkpoint_epoch small_runtime (py ''ckpts/m-epoch-'' @ [28] @ py ''5.pt'') = Inl ValueError"
    by code_simp
  from parse_error_aborts_unchanged [OF a b c, of 3] a b c show ?thesis
    by (simp only: simp_thms)
qed

text \<open>
  Claim C2 fails on the code. Two checkpoints of epoch 5 and \<open>num_save = 1\<close>: over
  the distinct epoch values nothing is stale, so the claim keeps both. The code takes
  the first entry of the sorted list \<open>[5, 5]\<close> as stale, finds the epoch of both
  checkpoints in it and removes both with their optimizer files: nothing is left.
\<close>

theorem duplicate_epochs_all_removed:
  "list_checkpoints fs_same_epoch (py ''ckpts'') (py '''')
     = Inr [py ''ckpts/a-epoch-5.pt'', py ''ckpts/b-epoch-5.pt'']
   \<and> epochs_of small_runtime [py ''ckpts/a-epoch-5.pt'', py ''ckpts/b-epoch-5.pt''] = Inr [5, 5]
   \<and> spec_stale_epochs 1 [5, 5] = []
   \<and> stale_epochs small_runtime 1 [5, 5] = [5]
   \<and> fst (delete_old_ckpts small_runtime (py ''ckpts'') (py '''') 1 fs_same_epoch) = Inr ()
   \<and> files (snd (delete_old_ckpts small_runtime (py ''ckpts'') (py '''') 1 fs_same_epoch)) = {}"
  by code_simp

text \<open>
  Where no epoch occurs twice the code does what the claim says: of the epochs 1 to 5
  with \<open>num_save = 3\<close> the checkpoints and optimizer files of the epochs 3, 4 and 5 stay.
\<close>

lemma prune_keeps_three_newest:
  "fst (delete_old_ckpts small_runtime (py ''ckpts'') (py '''') 3 fs_full) = Inr ()
   \<and> files (snd (delete_old_ckpts small_runtime (py ''ckpts'') (py '''') 3 fs_full))
      = set (map (os_path_join (py ''ckpts'')) (drop 2 ckpt_names @ drop 2 opt_names))"
  by code_simp

text \<open>
  Claim C1, as the code has it. When every stale checkpoint can be removed and the
  optimizer file of one of them, \<open>c\<close>, is missing, the call raises
  \<^verbatim>\<open>FileNotFoundError\<close>: the second comprehension has no handler. The first
  comprehension has finished by then, so \<open>c\<close> and every other stale checkpoint are gone.
\<close>

theorem missing_optimizer_file_raises:
  assumes "list_checkpoints fs save_path model_name = Inr checkpoints"
    and "epochs_of rt checkpoints = Inr es"
    and "distinct checkpoints"
    and "set (filter (is_stale rt num_save es) checkpoints) \<subseteq> files fs"
    and "c \<in> set checkpoints"
    and "is_stale rt num_save es c"
    and "opt_checkpoint c \<notin> files fs"
  shows "\<exists>p fs'. delete_old_ckpts rt save_path model_name num_save fs
             = (Inl (FileNotFoundError p), fs')
           \<and> c \<notin> files fs'
           \<and> set (filter (is_stale rt num_save es) checkpoints) \<inter> files fs' = {}"
proof -
  let ?D = "set (filter (is_stale rt num_save es) checkpoints)"
  let ?fs = "fs\<lparr>files := files fs - ?D\<rparr>"
  have parses: "\<forall>d \<in> set checkpoints. \<exists>n. checkpoint_epoch rt d = Inr n"
    using epochs_of_parses [OF assms(2)] by blast
  have "remove_where rt (\<lambda>c. c) num_save es checkpoints fs =
      (Inr (), fs\<lparr>files := files fs
         - (\<lambda>c. c) ` {d \<in> set checkpoints. is_stale rt num_save es d}\<rparr>)"
    using parses assms(3,4) by (intro remove_where_ok) (auto simp: distinct_map_filter)
  then have first: "remove_where rt (\<lambda>c. c) num_save es checkpoints fs = (Inr (), ?fs)"
    by simp
  have "opt_checkpoint c \<notin> files ?fs" using assms(7) by simp
  from remove_where_missing [of checkpoints rt c num_save es opt_checkpoint ?fs,
      OF parses assms(5,6) this]
  obtain p fs' where second:
    "remove_where rt opt_checkpoint num_save es checkpoints ?fs = (Inl (FileNotFoundError p), fs')"
    by blast
  from remove_where_shrinks [OF second] have sub: "files fs' \<subseteq> files fs - ?D" by simp
  have "delete_old_ckpts rt save_path model_name num_save fs = (Inl (FileNotFoundError p), fs')"
    using assms(1,2) first second by (simp add: delete_old_ckpts_def)
  moreover have "c \<notin> files fs'" using sub assms(5,6) by auto
  moreover have "?D \<inter> files fs' = {}" using sub by auto
  ultimately show ?thesis by blast
qed

theorem missing_optimizer_file_raises_witness:
  "list_checkpoints fs_no_opt (py ''ckpts'') (py '''')
     = Inr (map (os_path_join (py ''ckpts'')) ckpt_names)
   \<and> epochs_of small_runtime (map (os_path_join (py ''ckpts'')) ckpt_names) = Inr [1, 2, 3, 4, 5]
   \<and> distinct (map (os_path_join (py ''ckpts'')) ckpt_names)
   \<and> set (filter (is_stale small_runtime 3 [1, 2, 3, 4, 5])
            (map (os_path_join (py ''ckpts'')) ckpt_names)) \<subseteq> files fs_no_opt
   \<and> py ''ckpts/checkpoint-epoch-2.pt'' \<in> set (map (os_path_join (py ''ckpts'')) ckpt_names)
   \<and> is_stale small_runtime 3 [1, 2, 3, 4, 5] (py ''ckpts/checkpoint-epoch-2.pt'')
   \<and> opt_checkpoint (py ''ckpts/checkpoint-epoch-2.pt'') \<notin> files fs_no_opt
   \<and> (\<exists>p fs'. delete_old_ckpts small_runtime (py ''ckpts'') (py '''') 3 fs_no_opt
           = (Inl (FileNotFoundError p), fs')
         \<and> py ''ckpts/checkpoint-epoch-2.pt'' \<notin> files fs'
         \<and> set (filter (is_stale small_runtime 3 [1, 2, 3, 4, 5])
                  (map (os_path_join (py ''ckpts'')) ckpt_names)) \<inter> files fs' = {})"
proof -
  have a: "list_checkpoints fs_no_opt (py ''ckpts'') (py '''')
     = Inr (map (os_path_join (py ''ckpts'')) ckpt_names)"
    by code_simp
  have b: "epochs_of small_runtime (map (os_path_join (py ''ckpts'')) ckpt_names)
     = Inr [1, 2, 3, 4, 5]"
    by code_simp
  have d: "distinct (map (os_path_join (py ''ckpts'')) ckpt_names)"
    by code_simp
  have e: "set (filter (is_stale small_runtime 3 [1, 2, 3, 4, 5])
            (map (os_path_join (py ''ckpts'')) ckpt_names)) \<subseteq> files fs_no_opt"
    by code_simp
  have f: "py ''ckpts/checkpoint-epoch-2.pt'' \<in> set (map (os_path_join (py ''ckpts'')) ckpt_names)"
    by code_simp
  have g: "is_stale small_runtime 3 [1, 2, 3, 4, 5] (py ''ckpts/checkpoint-epoch-2.pt'')"
    by code_simp
  have h: "opt_checkpoint (py ''ckpts/checkpoint-epoch-2.pt'') \<notin> files fs_no_opt"
    by code_simp
  from missing_optimizer_file_raises [OF a b d e f g h] a b d e f g h
  show ?thesis by (simp only: simp_thms)
qed

text \<open>
  Claim C1 as stated fails: five checkpoints without optimizer files, \<open>num_save = 3\<close>.
  The call raises for the optimizer file of the first checkpoint.
\<close>

theorem missing_companion_raises:
  "is_stale small_runtime 3 [1, 2, 3, 4, 5] (py ''ckpts/checkpoint-epoch-1.pt'')
   \<and> opt_checkpoint (py ''ckpts/checkpoint-epoch-1.pt'') = py ''ckpts/opt-checkpoint_epoch-1.tar''
   \<and> py ''ckpts/opt-checkpoint_epoch-1.tar'' \<notin> files fs_no_opt
   \<and> fst (delete_old_ckpts small_runtime (py ''ckpts'') (py '''') 3 fs_no_opt)
      = Inl (FileNotFoundError (py ''ckpts/opt-checkpoint_epoch-1.tar''))"
  by code_simp

text \<open>
  Claim C4, as the code has it. No exception is caught in \<open>delete_old_ckpts\<close>. When
  the removal of a stale checkpoint \<open>c\<close> fails, and the stale checkpoints listed before
  it were removed, the call raises \<^verbatim>\<open>FileNotFoundError\<close> for \<open>c\<close> at once: exactly
  the stale checkpoints listed before \<open>c\<close> are gone, the stale checkpoints listed after
  it stay, and no optimizer file is touched.
\<close>

theorem unremovable_checkpoint_aborts:
  assumes "list_checkpoints fs save_path model_name = Inr (before @ c # later)"
    and "epochs_of rt (before @ c # later) = Inr es"
    and "distinct (filter (is_stale rt num_save es) before)"
    and "set (filter (is_stale rt num_save es) before) \<subseteq> files fs"
    and "is_stale rt num_save es c"
    and "c \<notin> files fs"
  shows "delete_old_ckpts rt save_path model_name num_save fs =
    (Inl (FileNotFoundError c),
     fs\<lparr>files := files fs - set (filter (is_stale rt num_save es) before)\<rparr>)"
proof -
  let ?fs = "fs\<lparr>files := files fs - set (filter (is_stale rt num_save es) before)\<rparr>"
  have parses: "\<forall>d \<in> set before. \<exists>n. checkpoint_epoch rt d = Inr n"
    using epochs_of_parses [OF assms(2)] by simp
  have "remove_where rt (\<lambda>c. c) num_save es before fs =
      (Inr (), fs\<lparr>files := files fs - (\<lambda>c. c) ` {d \<in> set before. is_stale rt num_save es d}\<rparr>)"
    using parses assms(3,4) by (intro remove_where_ok) auto
  then have first: "remove_where rt (\<lambda>c. c) num_save es before fs = (Inr (), ?fs)"
    by simp
  from assms(5) obtain n where n: "checkpoint_epoch rt c = Inr n" "in_stale rt num_save es n"
    by (auto simp: is_stale_def split: sum.splits)
  have "remove_where rt (\<lambda>c. c) num_save es (c # later) ?fs = (Inl (FileNotFoundError c), ?fs)"
    using n assms(6) by (simp add: os_remove_def)
  with first have "remove_where rt (\<lambda>c. c) num_save es (before @ c # later) fs
      = (Inl (FileNotFoundError c), ?fs)"
    by (simp add: remove_where_append)
  with assms(1,2) show ?thesis by (simp add: delete_old_ckpts_def)
qed

theorem unremovable_checkpoint_aborts_witness:
  "list_checkpoints fs_raced (py ''ckpts'') (py '''') =
      Inr ([py ''ckpts/checkpoint-epoch-1.pt''] @ py ''ckpts/checkpoint-epoch-2.pt''
             # map (os_path_join (py ''ckpts'')) (drop 2 ckpt_names))
   \<and> epochs_of small_runtime ([py ''ckpts/checkpoint-epoch-1.pt''] @ py ''ckpts/checkpoint-epoch-2.pt''
             # map (os_path_join (py ''ckpts'')) (drop 2 ckpt_names)) = Inr [1, 2, 3, 4, 5]
   \<and> distinct (filter (is_stale small_runtime 2 [1, 2, 3, 4, 5]) [py ''ckpts/checkpoint-epoch-1.pt''])
   \<and> set (filter (is_stale small_runtime 2 [1, 2, 3, 4, 5]) [py ''ckpts/checkpoint-epoch-1.pt''])
        \<subseteq> files fs_raced
   \<and> is_stale small_runtime 2 [1, 2, 3, 4, 5] (py ''ckpts/checkpoint-epoch-2.pt'')
   \<and> py ''ckpts/checkpoint-epoch-2.pt'' \<notin> files fs_raced
   \<and> delete_old_ckpts small_runtime (py ''ckpts'') (py '''') 2 fs_raced =
      (Inl (FileNotFoundError (py ''ckpts/checkpoint-epoch-2.pt'')),
       fs_raced\<lparr>files := files fs_raced - {py ''ckpts/checkpoint-epoch-1.pt''}\<rparr>)"
proof -
  have a: "list_checkpoints fs_raced (py ''ckpts'') (py '''') =
      Inr ([py ''ckpts/checkpoint-epoch-1.pt''] @ py ''ckpts/checkpoint-epoch-2.pt''
             # map (os_path_join (py ''ckpts'')) (drop 2 ckpt_names))"
    by code_simp
  have b: "epochs_of small_runtime ([py ''ckpts/checkpoint-epoch-1.pt''] @ py ''ckpts/checkpoint-epoch-2.pt''
             # map (os_path_join (py ''ckpts'')) (drop 2 ckpt_names)) = Inr [1, 2, 3, 4, 5]"
    by code_simp
  have d: "distinct (filter (is_stale small_runtime 2 [1, 2, 3, 4, 5]) [py ''ckpts/checkpoint-epoch-1.pt''])"
    by code_simp
  have e: "set (filter (is_stale small_runtime 2 [1, 2, 3, 4, 5]) [py ''ckpts/checkpoint-epoch-1.pt''])
        \<subseteq> files fs_raced"
    by code_simp
  have f: "is_stale small_runtime 2 [1, 2, 3, 4, 5] (py ''ckpts/checkpoint-epoch-2.pt'')"
    by code_simp
  have g: "py ''ckpts/checkpoint-epoch-2.pt'' \<notin> files fs_raced"
    by code_simp
  have h: "set (filter (is_stale small_runtime 2 [1, 2, 3, 4, 5]) [py ''ckpts/checkpoint-epoch-1.pt''])
      = {py ''ckpts/checkpoint-epoch-1.pt''}"
    by code_simp
  from unremovable_checkpoint_aborts [OF a b d e f g] h
  have "delete_old_ckpts small_runtime (py ''ckpts'') (py '''') 2 fs_raced =
      (Inl (FileNotFoundError (py ''ckpts/checkpoint-epoch-2.pt'')),
       fs_raced\<lparr>files := files fs_raced - {py ''ckpts/checkpoint-epoch-1.pt''}\<rparr>)"
    by (simp only:)
  with a b d e f g show ?thesis by (simp only: simp_thms)
qed

text \<open>
  Claim C4 as stated fails: with checkpoints of the epochs 1 to 5 listed, the second
  one already gone and \<open>num_save = 2\<close>, the call raises at the second checkpoint, and the
  third, whose epoch is stale as well, has not been removed.
\<close>

theorem deletion_failure_aborts_batch:
  "is_stale small_runtime 2 [1, 2, 3, 4, 5] (py ''ckpts/checkpoint-epoch-3.pt'')
   \<and> py ''ckpts/checkpoint-epoch-3.pt'' \<in> files fs_raced
   \<and> fst (delete_old_ckpts small_runtime (py ''ckpts'') (py '''') 2 fs_raced)
      = Inl (FileNotFoundError (py ''ckpts/checkpoint-epoch-2.pt''))
   \<and> py ''ckpts/checkpoint-epoch-3.pt''
      \<in> files (snd (delete_old_ckpts small_runtime (py ''ckpts'') (py '''') 2 fs_raced))"
  by code_simp


section \<open>Properties of the resampler\<close>

lemma np_unique_set: "set (np_unique y) = set y"
  by (simp add: np_unique_def)

lemma np_unique_distinct: "distinct (np_unique y)"
  by (simp add: np_unique_def)

lemma np_unique_length: "length (np_unique y) = card (set y)"
  by (simp add: np_unique_def length_remdups_card_conv)

lemma np_min_Min:
  assumes "xs \<noteq> []"
  shows "np_min xs = Inr (Min (set xs))"
proof (cases xs)
  case Nil
  with assms show ?thesis by simp
next
  case (Cons x rest)
  then show ?thesis
    using Min.set_eq_fold [of x rest] by (simp add: np_min_def)
qed

lemma np_counts_set: "set (np_counts y) = (\<lambda>label. int (count_list y label)) ` set y"
  by (simp add: np_counts_def np_unique_set)

lemma np_counts_ne:
  assumes "y \<noteq> []"
  shows "np_counts y \<noteq> []"
proof -
  from assms have "set (np_unique y) \<noteq> {}" by (simp add: np_unique_set)
  then show ?thesis by (auto simp: np_counts_def)
qed

lemma np_where_length: "length (np_where y label) = count_list y label"
proof -
  have "length (filter (\<lambda>i. y ! i = label) [0..<length y]) = length (filter ((=) label) y)"
  proof (induction y rule: rev_induct)
    case Nil
    then show ?case by simp
  next
    case (snoc x xs)
    have "filter (\<lambda>i. (xs @ [x]) ! i = label) [0..<length xs]
        = filter (\<lambda>i. xs ! i = label) [0..<length xs]"
      by (rule filter_cong) (auto simp: nth_append)
    with snoc show ?case by auto
  qed
  then show ?thesis
    by (simp add: np_where_def count_list_eq_length_filter)
qed

lemma np_where_set: "set (np_where y label) = {i. i < length y \<and> y ! i = label}"
  by (auto simp: np_where_def)

lemma np_where_distinct: "distinct (np_where y label)"
  by (simp add: np_where_def)

lemma contract_choice:
  assumes "rng_contract rng" "a \<noteq> []" "rep \<or> n \<le> length a"
  shows "length (fst (np_choice rng a n rep g)) = n"
    and "set (fst (np_choice rng a n rep g)) \<subseteq> set a"
  using assms unfolding rng_contract_def by blast+

lemma contract_choice_distinct:
  assumes "rng_contract rng" "distinct a" "n \<le> length a"
  shows "distinct (fst (np_choice rng a n False g))"
  using assms unfolding rng_contract_def by blast

lemma contract_permutation:
  assumes "rng_contract rng"
  shows "mset (fst (np_permutation rng xs g)) = mset xs"
  using assms unfolding rng_contract_def by blast

text \<open>One round of the loop: what is drawn for a label that occurs in \<open>y\<close>.\<close>

lemma drawn_for_label:
  assumes "rng_contract rng" "label \<in> set y"
    and "drawn = fst (if q \<le> int (length (np_where y label))
             then np_choice rng (np_where y label) (nat q) False g
             else np_choice rng (np_where y label) (nat q) True g)"
  shows "length drawn = nat q"
    and "\<forall>i \<in> set drawn. i < length y \<and> y ! i = label"
proof -
  from assms(2) have ne: "np_where y label \<noteq> []"
    by (auto simp: np_where_def filter_empty_conv in_set_conv_nth)
  show "length drawn = nat q"
    using contract_choice(1) [OF assms(1) ne] assms(3) by (auto split: if_splits)
  have "set drawn \<subseteq> set (np_where y label)"
    using contract_choice(2) [OF assms(1) ne] assms(3) by (auto split: if_splits)
  then show "\<forall>i \<in> set drawn. i < length y \<and> y ! i = label"
    by (auto simp: np_where_set)
qed

lemma draw_labels_counts:
  "rng_contract rng \<Longrightarrow> distinct labels \<Longrightarrow> set labels \<subseteq> set y \<Longrightarrow>
   draw_labels rng y q labels acc g = (idxs, g') \<Longrightarrow>
   length (filter (\<lambda>i. y ! i = l) idxs)
      = length (filter (\<lambda>i. y ! i = l) acc) + (if l \<in> set labels then nat q else 0)
   \<and> length idxs = length acc + length labels * nat q
   \<and> set idxs \<subseteq> set acc \<union> {i. i < length y}"
proof (induction labels arbitrary: acc g)
  case Nil
  then show ?case by auto
next
  case (Cons label labels)
  define drawn where "drawn = fst (if q \<le> int (length (np_where y label))
             then np_choice rng (np_where y label) (nat q) False g
             else np_choice rng (np_where y label) (nat q) True g)"
  define g1 where "g1 = snd (if q \<le> int (length (np_where y label))
             then np_choice rng (np_where y label) (nat q) False g
             else np_choice rng (np_where y label) (nat q) True g)"
  have step: "draw_labels rng y q (label # labels) acc g
      = draw_labels rng y q labels (acc @ drawn) g1"
    by (simp add: drawn_def g1_def Let_def split_beta)
  from Cons.prems(3) have in_y: "label \<in> set y" and sub: "set labels \<subseteq> set y" by simp_all
  from Cons.prems(2) have fresh: "label \<notin> set labels" and dist: "distinct labels" by simp_all
  note d = drawn_for_label [OF Cons.prems(1) in_y drawn_def]
  from Cons.prems(4) have rest: "draw_labels rng y q labels (acc @ drawn) g1 = (idxs, g')"
    by (simp only: step)
  have cnt: "length (filter (\<lambda>i. y ! i = l) drawn) = (if l = label then nat q else 0)"
  proof (cases "l = label")
    case True
    with d have "filter (\<lambda>i. y ! i = l) drawn = drawn" by (simp add: filter_id_conv)
    with d True show ?thesis by simp
  next
    case False
    with d have "filter (\<lambda>i. y ! i = l) drawn = []" by (auto simp: filter_empty_conv)
    with False show ?thesis by simp
  qed
  note ih = Cons.IH [OF Cons.prems(1) dist sub rest]
  have "length (filter (\<lambda>i. y ! i = l) idxs)
      = length (filter (\<lambda>i. y ! i = l) acc) + (if l \<in> set (label # labels) then nat q else 0)"
    using ih cnt fresh by auto
  moreover have "length idxs = length acc + length (label # labels) * nat q"
    using ih d by simp
  moreover have "set idxs \<subseteq> set acc \<union> {i. i < length y}"
    using ih d by auto
  ultimately show ?case by blast
qed

lemma draw_labels_distinct:
  "rng_contract rng \<Longrightarrow> distinct labels \<Longrightarrow> set labels \<subseteq> set y \<Longrightarrow>
   \<forall>label \<in> set labels. q \<le> int (length (np_where y label)) \<Longrightarrow>
   distinct acc \<Longrightarrow> \<forall>i \<in> set acc. y ! i \<notin> set labels \<Longrightarrow>
   draw_labels rng y q labels acc g = (idxs, g') \<Longrightarrow> distinct idxs"
proof (induction labels arbitrary: acc g)
  case Nil
  then show ?case by simp
next
  case (Cons label labels)
  define drawn where "drawn = fst (if q \<le> int (length (np_where y label))
             then np_choice rng (np_where y label) (nat q) False g
             else np_choice rng (np_where y label) (nat q) True g)"
  define g1 where "g1 = snd (if q \<le> int (length (np_where y label))
             then np_choice rng (np_where y label) (nat q) False g
             else np_choice rng (np_where y label) (nat q) True g)"
  have step: "draw_labels rng y q (label # labels) acc g
      = draw_labels rng y q labels (acc @ drawn) g1"
    by (simp add: drawn_def g1_def Let_def split_beta)
  from Cons.prems(3) have in_y: "label \<in> set y" and sub: "set labels \<subseteq> set y" by simp_all
  from Cons.prems(2) have fresh: "label \<notin> set labels" and dist: "distinct labels" by simp_all
  note d = drawn_for_label [OF Cons.prems(1) in_y drawn_def]
  from Cons.prems(7) have rest: "draw_labels rng y q labels (acc @ drawn) g1 = (idxs, g')"
    by (simp only: step)
  from Cons.prems(4) have guard: "q \<le> int (length (np_where y label))" by simp
  then have "drawn = fst (np_choice rng (np_where y label) (nat q) False g)"
    by (simp add: drawn_def)
  moreover from guard have "nat q \<le> length (np_where y label)" by simp
  ultimately have dd: "distinct drawn"
    using contract_choice_distinct [OF Cons.prems(1) np_where_distinct] by simp
  have "set acc \<inter> set drawn = {}"
    using Cons.prems(6) d by auto
  with dd Cons.prems(5) have "distinct (acc @ drawn)" by simp
  moreover have "\<forall>i \<in> set (acc @ drawn). y ! i \<notin> set labels"
    using Cons.prems(6) d fresh by auto
  moreover have "\<forall>label \<in> set labels. q \<le> int (length (np_where y label))"
    using Cons.prems(4) by simp
  ultimately show ?case
    using Cons.IH [OF Cons.prems(1) dist sub _ _ _ rest] by blast
qed

lemma draw_labels_same:
  "\<forall>label \<in> set labels. q \<le> int (length (np_where y label)) \<Longrightarrow>
   \<forall>a n g. np_choice rng' a n False g = np_choice rng a n False g \<Longrightarrow>
   draw_labels rng' y q labels acc g = draw_labels rng y q labels acc g"
  by (induction labels arbitrary: acc g) (simp_all add: split_beta)

lemma counting_rng_contract: "rng_contract counting_rng"
proof -
  have "set (map (\<lambda>i. a ! (i mod length a)) [0..<n]) \<subseteq> set a" if "a \<noteq> []" for a :: "nat list" and n
    using that by auto
  then show ?thesis
    unfolding rng_contract_def counting_rng_def
    by (auto dest: in_set_takeD)
qed

lemma count_list_map:
  "count_list (map f xs) v = length (filter (\<lambda>x. f x = v) xs)"
  by (induction xs) auto

lemma minority_pos:
  assumes "y \<noteq> []" "minority_of y min_size = Inr q"
  shows "0 < q"
proof -
  let ?C = "(\<lambda>label. int (count_list y label)) ` set y"
  have fin: "finite ?C" "?C \<noteq> {}" using assms(1) by auto
  have "\<forall>c \<in> ?C. 0 < c" by (auto simp: count_list_0_iff zero_less_iff_neq_zero)
  with fin have "0 < Min ?C" by simp
  moreover have "np_min (np_counts y) = Inr (Min ?C)"
    using np_min_Min [OF np_counts_ne [OF assms(1)]] by (simp add: np_counts_set)
  ultimately show ?thesis
    using assms(2) by (auto simp: minority_of_def split: option.splits)
qed

lemma minority_le_counts:
  assumes "y \<noteq> []" "minority_of y None = Inr q" "label \<in> set y"
  shows "q \<le> int (length (np_where y label))"
proof -
  let ?C = "(\<lambda>label. int (count_list y label)) ` set y"
  have "np_min (np_counts y) = Inr (Min ?C)"
    using np_min_Min [OF np_counts_ne [OF assms(1)]] by (simp add: np_counts_set)
  with assms(2) have "q = Min ?C" by (simp add: minority_of_def)
  moreover have "Min ?C \<le> int (count_list y label)"
    using assms(3) by (intro Min_le) auto
  ultimately show ?thesis by (simp add: np_where_length)
qed

lemma slice_to_length: "length (slice_to m xs) \<le> length xs"
  by (auto simp: slice_to_def)

lemma slice_to_pos: "0 < m \<Longrightarrow> slice_to m xs = take (nat m) xs"
  by (auto simp: slice_to_def)

text \<open>The index list before the truncation, as a pair of the two library calls.\<close>

lemma balanced_idxs_unfold:
  assumes "minority_of y min_size = Inr q"
    and "draw_labels rng y q (np_unique y) [] (np_seed rng 0) = (drawn, g1)"
    and "np_permutation rng drawn g1 = (perm, g2)"
  shows "balanced_idxs rng y max_size min_size g =
    (Inr (case max_size of None \<Rightarrow> perm | Some m \<Rightarrow> if m \<noteq> 0 then slice_to m perm else perm), g2)"
  using assms by (simp add: balanced_idxs_def)

section \<open>The balanced resampler\<close>

text \<open>
  Claim C7. For non-empty labels the quota \<open>minority\<close> is the least of the observed
  class counts when \<open>min_size\<close> is \<^verbatim>\<open>None\<close>, and otherwise the larger of that and
  \<open>min_size\<close> divided by the number of classes, rounded down (towards minus infinity,
  as the floor of the quotient of reals).
\<close>

theorem minority_is_quota:
  assumes "y \<noteq> []"
  shows "minority_of y None = Inr (Min ((\<lambda>label. int (count_list y label)) ` set y))
    \<and> minority_of y (Some m) =
        Inr (max (Min ((\<lambda>label. int (count_list y label)) ` set y))
               \<lfloor>real_of_int m / real (card (set y))\<rfloor>)"
proof -
  have "\<lfloor>real_of_int m / real (card (set y))\<rfloor> = m div int (card (set y))"
    using floor_divide_of_int_eq [of m "int (card (set y))", where ?'a = real] by simp
  then show ?thesis
    using np_min_Min [OF np_counts_ne [OF assms]]
    by (simp add: minority_of_def np_counts_set np_unique_length)
qed

theorem minority_is_quota_witness:
  "y_skew \<noteq> []
   \<and> minority_of y_skew None = Inr 3
   \<and> minority_of y_skew (Some 9) = Inr 4
   \<and> minority_of y_skew (Some (- 7)) = Inr 3
   \<and> Min ((\<lambda>label. int (count_list y_skew label)) ` set y_skew) = 3
   \<and> max (3::int) \<lfloor>real_of_int 9 / real (card (set y_skew))\<rfloor> = 4"
proof -
  have a: "y_skew \<noteq> []" by code_simp
  have b: "minority_of y_skew None = Inr 3" by code_simp
  have c: "minority_of y_skew (Some 9) = Inr 4" by code_simp
  have d: "minority_of y_skew (Some (- 7)) = Inr 3" by code_simp
  note q = minority_is_quota [OF a, of 9]
  from q b have e: "Min ((\<lambda>label. int (count_list y_skew label)) ` set y_skew) = 3"
    by simp
  from q c have f: "max (3::int) \<lfloor>real_of_int 9 / real (card (set y_skew))\<rfloor> = 4"
    unfolding e by simp
  from a b c d e f show ?thesis by (simp only: simp_thms)
qed

text \<open>
  Claim C5. \<open>balanced_dataset\<close> seeds the generator with 0 before it draws, so its
  result, order included, and the generator state it leaves do not depend on the state
  the generator had: two calls with the same features, labels, \<open>max_size\<close> and
  \<open>min_size\<close> return the same.
\<close>

theorem balanced_dataset_deterministic:
  "balanced_dataset rng X y max_size min_size g1 = balanced_dataset rng X y max_size min_size g2"
  by (simp add: balanced_dataset_def balanced_idxs_def)

theorem balanced_dataset_deterministic_witness:
  "balanced_dataset counting_rng ''abcdefghijklm'' y_skew None None 7
     = balanced_dataset counting_rng ''abcdefghijklm'' y_skew None None 99
   \<and> balanced_dataset counting_rng ''abcdefghijklm'' y_skew None None 7
     = (Inr (''fedcba'', [1, 1, 1, 0, 0, 0]), 3)"
proof -
  have "balanced_dataset counting_rng ''abcdefghijklm'' y_skew None None 7
     = (Inr (''fedcba'', [1, 1, 1, 0, 0, 0]), 3)"
    by code_simp
  with balanced_dataset_deterministic [of counting_rng "''abcdefghijklm''" y_skew None None 7 99]
  show ?thesis by simp
qed

text \<open>
  Claim C3, as the code has it. With a \<open>max_size\<close> other than 0 the selection is made
  from the slice \<^verbatim>\<open>idxs[:max_size]\<close> of the permuted balanced index list: its first
  \<open>max_size\<close> entries for a positive \<open>max_size\<close> (all but the last \<open>-max_size\<close> for a
  negative one). With \<open>max_size = 0\<close> nothing is cut: the selection is made from the
  whole list.
\<close>

theorem max_size_truncates:
  "balanced_dataset rng X y (Some m) min_size g =
     (case balanced_idxs rng y None min_size g of
        (Inl e, g') \<Rightarrow> (Inl e, g')
      | (Inr idxs, g') \<Rightarrow>
          (select_both X y
             (if m = 0 then idxs
              else if 0 < m then take (nat m) idxs
              else take (length idxs - nat (- m)) idxs), g'))"
proof -
  have "nat (int n + m) = n - nat (- m)" if "m < 0" for n
    using that by arith
  then have "slice_to m idxs =
      (if 0 < m then take (nat m) idxs else take (length idxs - nat (- m)) idxs)"
    if "m \<noteq> 0" for idxs :: "nat list"
    using that by (auto simp: slice_to_def)
  then show ?thesis
    by (auto simp: balanced_dataset_def balanced_idxs_def Let_def split_beta
        split: sum.splits option.splits prod.splits)
qed

theorem max_size_truncates_witness:
  "fst (balanced_idxs counting_rng y_even None None 0) = Inr (rev [0..<20])
   \<and> length (rev [0..<20]) = 20
   \<and> fst (balanced_dataset counting_rng [0..<20] y_even (Some 5) None 0)
      = select_both [0..<20] y_even (take 5 (rev [0..<20]))
   \<and> select_both [0..<20] y_even (take 5 (rev [0..<20]))
      = Inr ([19, 18, 17, 16, 15], [1, 1, 1, 1, 1])"
proof -
  have a: "balanced_idxs counting_rng y_even None None 0 = (Inr (rev [0..<20]), 3)"
    by code_simp
  have b: "select_both [0..<20] y_even (take 5 (rev [0..<20]))
      = Inr ([19, 18, 17, 16, 15], [1, 1, 1, 1, 1])"
    by code_simp
  from max_size_truncates [where rng = counting_rng and X = "[0..<20]" and y = y_even
      and m = 5 and min_size = None and g = 0] a
  have "fst (balanced_dataset counting_rng [0..<20] y_even (Some 5) None 0)
      = select_both [0..<20] y_even (take 5 (rev [0..<20]))"
    by simp
  with a b show ?thesis by simp
qed

text \<open>
  Claim C3 as stated fails for \<open>max_size = 0\<close>: the call returns all twenty entries,
  not the first zero of them.
\<close>

theorem max_size_zero_keeps_all:
  "fst (balanced_idxs counting_rng y_even None None 0) = Inr (rev [0..<20])
   \<and> fst (balanced_dataset counting_rng [0..<20] y_even (Some 0) None 0)
      = Inr (rev [0..<20], replicate 10 1 @ replicate 10 0)
   \<and> select_both [0..<20] y_even (take 0 (rev [0..<20])) = Inr ([], [])"
  by code_simp

text \<open>
  Claim C6, as the code has it. For non-empty labels, a generator that keeps numpy's
  contract and the quota \<open>q\<close>: without \<open>max_size\<close> the call returns an index list in
  which the labels of every class occur exactly \<open>q\<close> times, of length
  \<open>numberOfClasses * q\<close>. With any \<open>max_size\<close> the returned list is at most that long,
  and at most \<open>max_size\<close> long when \<open>max_size\<close> is positive. A \<open>max_size\<close> of 0 does
  not cap: \<^verbatim>\<open>if max_size:\<close> treats it as \<^verbatim>\<open>None\<close>.
\<close>

theorem balanced_before_truncation:
  assumes "rng_contract rng" "y \<noteq> []" "minority_of y min_size = Inr q"
  shows "\<exists>idxs g' cut.
      balanced_idxs rng y None min_size g = (Inr idxs, g')
      \<and> (\<forall>label \<in> set y. int (count_list (map (nth y) idxs) label) = q)
      \<and> (\<forall>i \<in> set idxs. i < length y)
      \<and> int (length idxs) = int (card (set y)) * q
      \<and> balanced_idxs rng y max_size min_size g = (Inr cut, g')
      \<and> int (length cut) \<le> int (card (set y)) * q
      \<and> (\<forall>m. max_size = Some m \<and> 0 < m \<longrightarrow> int (length cut) \<le> m)"
proof -
  obtain drawn g1 where dr: "draw_labels rng y q (np_unique y) [] (np_seed rng 0) = (drawn, g1)"
    by (cases "draw_labels rng y q (np_unique y) [] (np_seed rng 0)") auto
  obtain perm g2 where pm: "np_permutation rng drawn g1 = (perm, g2)"
    by (cases "np_permutation rng drawn g1") auto
  have q: "0 < q" using minority_pos [OF assms(2,3)] .
  have ms: "mset perm = mset drawn"
    using contract_permutation [OF assms(1), of drawn g1] pm by simp
  note inv = draw_labels_counts [OF assms(1) np_unique_distinct _ dr, unfolded np_unique_set,
      OF subset_refl]
  have cnt: "int (count_list (map (nth y) perm) label) = q" if "label \<in> set y" for label
  proof -
    have "length (filter (\<lambda>i. y ! i = label) perm) = size (filter_mset (\<lambda>i. y ! i = label) (mset perm))"
      by (metis mset_filter size_mset)
    also have "\<dots> = length (filter (\<lambda>i. y ! i = label) drawn)"
      unfolding ms by (metis mset_filter size_mset)
    also have "\<dots> = nat q" using inv [of label] that by simp
    finally show ?thesis using q by (simp add: count_list_map)
  qed
  have rng: "\<forall>i \<in> set perm. i < length y"
  proof -
    have "set perm = set drawn" using ms by (metis set_mset_mset)
    with inv [of 0] show ?thesis by auto
  qed
  have len: "int (length perm) = int (card (set y)) * q"
  proof -
    have "length perm = length drawn" using ms by (metis size_mset)
    with inv [of 0] q show ?thesis by (simp add: np_unique_length)
  qed
  let ?cut = "case max_size of None \<Rightarrow> perm | Some m \<Rightarrow> if m \<noteq> 0 then slice_to m perm else perm"
  have full: "balanced_idxs rng y None min_size g = (Inr perm, g2)"
    using balanced_idxs_unfold [OF assms(3) dr pm, of None g] by simp
  have cut: "balanced_idxs rng y max_size min_size g = (Inr ?cut, g2)"
    using balanced_idxs_unfold [OF assms(3) dr pm] .
  have "length ?cut \<le> length perm"
    by (auto simp: slice_to_length split: option.splits)
  with len have cl: "int (length ?cut) \<le> int (card (set y)) * q" by simp
  have cm: "\<forall>m. max_size = Some m \<and> 0 < m \<longrightarrow> int (length ?cut) \<le> m"
    by (auto simp: slice_to_pos)
  from full cnt rng len cut cl cm show ?thesis by blast
qed

theorem balanced_before_truncation_witness:
  "rng_contract counting_rng \<and> y_skew \<noteq> [] \<and> minority_of y_skew (Some 11) = Inr 5
   \<and> (\<exists>idxs g' cut.
      balanced_idxs counting_rng y_skew None (Some 11) 7 = (Inr idxs, g')
      \<and> (\<forall>label \<in> set y_skew. int (count_list (map (nth y_skew) idxs) label) = 5)
      \<and> (\<forall>i \<in> set idxs. i < length y_skew)
      \<and> int (length idxs) = int (card (set y_skew)) * 5
      \<and> balanced_idxs counting_rng y_skew (Some 4) (Some 11) 7 = (Inr cut, g')
      \<and> int (length cut) \<le> int (card (set y_skew)) * 5
      \<and> (\<forall>m. Some 4 = Some m \<and> 0 < m \<longrightarrow> int (length cut) \<le> m))
   \<and> balanced_idxs counting_rng y_skew None (Some 11) 7
      = (Inr [7, 6, 5, 4, 3, 1, 0, 2, 1, 0], 3)
   \<and> balanced_idxs counting_rng y_skew (Some 4) (Some 11) 7 = (Inr [7, 6, 5, 4], 3)"
proof -
  have a: "y_skew \<noteq> []" by code_simp
  have b: "minority_of y_skew (Some 11) = Inr 5" by code_simp
  have c: "balanced_idxs counting_rng y_skew None (Some 11) 7
      = (Inr [7, 6, 5, 4, 3, 1, 0, 2, 1, 0], 3)"
    by code_simp
  have d: "balanced_idxs counting_rng y_skew (Some 4) (Some 11) 7 = (Inr [7, 6, 5, 4], 3)"
    by code_simp
  note t = balanced_before_truncation [OF counting_rng_contract a b,
      where max_size = "Some 4" and g = 7]
  from t counting_rng_contract a b c d show ?thesis by (simp only: simp_thms)
qed

text \<open>
  Claim C6 as stated fails for \<open>max_size = 0\<close>: twenty labels in two classes of ten give
  twenty indices, more than \<open>max_size\<close>. The length is the same for every generator
  that keeps the contract, by the theorem above.
\<close>

theorem max_size_zero_does_not_cap:
  "rng_contract counting_rng
   \<and> fst (balanced_idxs counting_rng y_even (Some 0) None 0) = Inr (rev [0..<20])
   \<and> length (rev [0..<20]) = 20
   \<and> \<not> int (length (rev [0..<20])) \<le> 0"
proof -
  have "fst (balanced_idxs counting_rng y_even (Some 0) None 0) = Inr (rev [0..<20])"
    by code_simp
  with counting_rng_contract show ?thesis by simp
qed

text \<open>
  Claim C10. Without \<open>min_size\<close> the quota is the least class count, so the test
  \<^verbatim>\<open>len(label_idxs) >= minority\<close> holds for every class. The branch with replacement
  is never run: a generator that differs only in its samples with replacement gives
  the same result. No index is selected twice, within a class or at all.
\<close>

theorem no_replacement_without_min_size:
  assumes "rng_contract rng" "y \<noteq> []"
  shows "\<exists>q idxs g'.
      minority_of y None = Inr q
      \<and> (\<forall>label \<in> set (np_unique y). q \<le> int (length (np_where y label)))
      \<and> balanced_idxs rng y max_size None g = (Inr idxs, g')
      \<and> distinct idxs
      \<and> (\<forall>rng'. np_seed rng' = np_seed rng \<and> np_permutation rng' = np_permutation rng
            \<and> (\<forall>a n g. np_choice rng' a n False g = np_choice rng a n False g)
            \<longrightarrow> balanced_idxs rng' y max_size None g = balanced_idxs rng y max_size None g)"
proof -
  obtain q where mq: "minority_of y None = Inr q"
    using np_min_Min [OF np_counts_ne [OF assms(2)]] by (simp add: minority_of_def)
  have guard: "\<forall>label \<in> set (np_unique y). q \<le> int (length (np_where y label))"
    using minority_le_counts [OF assms(2) mq] by (simp add: np_unique_set)
  obtain drawn g1 where dr: "draw_labels rng y q (np_unique y) [] (np_seed rng 0) = (drawn, g1)"
    by (cases "draw_labels rng y q (np_unique y) [] (np_seed rng 0)") auto
  obtain perm g2 where pm: "np_permutation rng drawn g1 = (perm, g2)"
    by (cases "np_permutation rng drawn g1") auto
  have "distinct drawn"
    using draw_labels_distinct [OF assms(1) np_unique_distinct _ guard _ _ dr]
    by (simp add: np_unique_set)
  moreover have "mset perm = mset drawn"
    using contract_permutation [OF assms(1), of drawn g1] pm by simp
  ultimately have dp: "distinct perm" by (metis mset_eq_imp_distinct_iff)
  let ?cut = "case max_size of None \<Rightarrow> perm | Some m \<Rightarrow> if m \<noteq> 0 then slice_to m perm else perm"
  have run: "balanced_idxs rng y max_size None g = (Inr ?cut, g2)"
    using balanced_idxs_unfold [OF mq dr pm] .
  have dc: "distinct ?cut"
    using dp by (auto simp: slice_to_def split: option.splits)
  have same: "balanced_idxs rng' y max_size None g = balanced_idxs rng y max_size None g"
    if "np_seed rng' = np_seed rng" "np_permutation rng' = np_permutation rng"
      "\<forall>a n g. np_choice rng' a n False g = np_choice rng a n False g" for rng'
    using that draw_labels_same [OF guard that(3)] mq by (simp add: balanced_idxs_def)
  from mq guard run dc same show ?thesis by blast
qed

theorem no_replacement_without_min_size_witness:
  "rng_contract counting_rng \<and> y_skew \<noteq> []
   \<and> (\<exists>q idxs g'.
      minority_of y_skew None = Inr q
      \<and> (\<forall>label \<in> set (np_unique y_skew). q \<le> int (length (np_where y_skew label)))
      \<and> balanced_idxs counting_rng y_skew None None 7 = (Inr idxs, g')
      \<and> distinct idxs
      \<and> (\<forall>rng'. np_seed rng' = np_seed counting_rng
            \<and> np_permutation rng' = np_permutation counting_rng
            \<and> (\<forall>a n g. np_choice rng' a n False g = np_choice counting_rng a n False g)
            \<longrightarrow> balanced_idxs rng' y_skew None None 7 = balanced_idxs counting_rng y_skew None None 7))
   \<and> balanced_idxs counting_rng y_skew None None 7 = (Inr [5, 4, 3, 2, 1, 0], 3)"
proof -
  have a: "y_skew \<noteq> []" by code_simp
  have b: "balanced_idxs counting_rng y_skew None None 7 = (Inr [5, 4, 3, 2, 1, 0], 3)"
    by code_simp
  from no_replacement_without_min_size [OF counting_rng_contract a,
      where max_size = None and g = 7]
    counting_rng_contract a b
  show ?thesis by (simp only: simp_thms)
qed


end
